theory Spec2Isabelle
  imports Complex_Main "HOL-Library.Sublist"
begin

section \<open>JavaScript values shared by the modules\<close>

text \<open>
  Strings are character lists. A thrown value is an object whose \<open>message\<close> property may
  be absent (\<open>error.message?.\<close> in the sources guards exactly that).
\<close>

datatype js_error = JsError (message: "string option")

text \<open>\<open>String.prototype.toLowerCase\<close> on the letters that matter for an ASCII needle.\<close>

definition toLowerChar :: "char \<Rightarrow> char" where
  "toLowerChar c =
     (case map_of (zip ''ABCDEFGHIJKLMNOPQRSTUVWXYZ'' ''abcdefghijklmnopqrstuvwxyz'') c of
        None \<Rightarrow> c
      | Some l \<Rightarrow> l)"

definition toLowerCase :: "string \<Rightarrow> string" where
  "toLowerCase s = map toLowerChar s"

text \<open>\<open>s.includes(needle)\<close>: the needle occurs as a contiguous run of \<open>s\<close>.\<close>

fun js_includes :: "string \<Rightarrow> string \<Rightarrow> bool" where
  "js_includes [] needle = (needle = [])"
| "js_includes (c # cs) needle = (prefix needle (c # cs) \<or> js_includes cs needle)"

text \<open>\<open>String.prototype.trim\<close>, over the white space a character of this model can be.\<close>

definition isWhiteSpace :: "char \<Rightarrow> bool" where
  "isWhiteSpace c = (c \<in> set [CHR 0x09, CHR 0x0A, CHR 0x0B, CHR 0x0C, CHR 0x0D, CHR 0x20, CHR 0xA0])"

definition js_trim :: "string \<Rightarrow> string" where
  "js_trim s = rev (dropWhile isWhiteSpace (rev (dropWhile isWhiteSpace s)))"

text \<open>Template-literal rendering of an integer number.\<close>

fun digitsOf :: "nat \<Rightarrow> string" where
  "digitsOf n =
     (if n < 10 then [''0123456789'' ! n]
      else digitsOf (n div 10) @ [''0123456789'' ! (n mod 10)])"

definition showNum :: "int \<Rightarrow> string" where
  "showNum i = (if i < 0 then CHR ''-'' # digitsOf (nat (- i)) else digitsOf (nat i))"

section \<open>Backoff retry wrapper (retry.ts)\<close>

definition MaxRetries :: int where
  "MaxRetries = 5"

definition InitialRetryDelay :: int where
  "InitialRetryDelay = 1000"

record RetryOptions =
  maxRetries :: "int option"
  initialRetryDelay :: "int option"

text \<open>
  The regular expression \<open>/try again in (\d+\.?\d*)s/i\<close>. \<open>matchHere\<close> matches it at the
  start of its argument and yields capture group 1: the three quantifiers are greedy and
  giving characters back never helps (the character after a shortened run is a digit or the
  dot, never the closing \<open>s\<close>), so the match succeeds exactly when the longest run is
  followed by \<open>s\<close> or \<open>S\<close>. \<open>waitMatch\<close> is the leftmost match, as \<open>String.match\<close> finds it.
\<close>

definition isDigit :: "char \<Rightarrow> bool" where
  "isDigit c = (c \<in> set ''0123456789'')"

definition matchHere :: "string \<Rightarrow> string option" where
  "matchHere s =
     (if prefix ''try again in '' (toLowerCase (take 13 s)) then
        (let r = drop 13 s;
             d1 = takeWhile isDigit r;
             r1 = dropWhile isDigit r
         in if d1 = [] then None
            else
              (let dot = (case r1 of [] \<Rightarrow> [] | c # _ \<Rightarrow> if c = CHR ''.'' then [c] else []);
                   r2 = drop (length dot) r1;
                   d2 = takeWhile isDigit r2;
                   r3 = dropWhile isDigit r2
               in case r3 of
                    [] \<Rightarrow> None
                  | c # _ \<Rightarrow> if toLowerChar c = CHR ''s'' then Some (d1 @ dot @ d2) else None))
      else None)"

fun waitMatch :: "string \<Rightarrow> string option" where
  "waitMatch [] = None"
| "waitMatch (c # cs) =
     (case matchHere (c # cs) of
        Some g \<Rightarrow> Some g
      | None \<Rightarrow> waitMatch cs)"

text \<open>
  Lines 37--47: the wait before the next attempt. \<open>toMs g\<close> stands for
  \<open>Math.ceil(parseFloat(g) * 1000)\<close>, which JavaScript computes in binary floating point;
  it is a parameter of the model. \<open>!waitTime\<close> holds for \<open>null\<close> and for the number 0.
\<close>

definition waitTimeFor :: "(string \<Rightarrow> int) \<Rightarrow> int \<Rightarrow> nat \<Rightarrow> string \<Rightarrow> int" where
  "waitTimeFor toMs initialDelay attempt msg =
     (let waitTime = (case waitMatch msg of None \<Rightarrow> None | Some g \<Rightarrow> Some (toMs g))
      in case waitTime of
           None \<Rightarrow> initialDelay * 2 ^ attempt
         | Some w \<Rightarrow> if w = 0 then initialDelay * 2 ^ attempt else w)"

text \<open>
  What the caller of \<open>withExponentialBackoff\<close> can throw: the operation's own error object
  (\<open>throw error\<close>, \<open>throw lastError\<close>), a fresh \<open>new Error(text)\<close>, or the value \<open>null\<close>
  (\<open>throw lastError\<close> with \<open>lastError\<close> never assigned).
\<close>

datatype thrown = Rethrown js_error | NewError string | ThrownNull

text \<open>
  A run of the wrapper: what it returned or threw, how often it invoked the operation, and
  the arguments of its \<open>sleep\<close> calls in order.
\<close>

record 'a retry_run =
  outcome :: "thrown + 'a"
  calls :: nat
  delays :: "int list"

text \<open>
  The \<open>for\<close> loop of lines 20--56, entered at \<open>attempt\<close>. The operation is an effectful
  thunk; \<open>fn k\<close> is what its invocation number \<open>k\<close> (counted from 0) produces, \<open>Inl\<close> a
  rejection. The loop invokes it once per iteration.
\<close>

function retryLoop ::
  "(string \<Rightarrow> int) \<Rightarrow> (nat \<Rightarrow> js_error + 'a) \<Rightarrow> int \<Rightarrow> int \<Rightarrow> nat \<Rightarrow> js_error option \<Rightarrow> int list
     \<Rightarrow> 'a retry_run" where
  "retryLoop toMs fn maxR initialDelay attempt lastError slept =
     (if int attempt < maxR then
        (case fn attempt of
           Inr v \<Rightarrow> \<lparr>outcome = Inr v, calls = Suc attempt, delays = slept\<rparr>
         | Inl error \<Rightarrow>
             (case message error of
                None \<Rightarrow> \<lparr>outcome = Inl (Rethrown error), calls = Suc attempt, delays = slept\<rparr>
              | Some msg \<Rightarrow>
                  if \<not> js_includes (toLowerCase msg) ''rate limit'' then
                    \<lparr>outcome = Inl (Rethrown error), calls = Suc attempt, delays = slept\<rparr>
                  else if int attempt = maxR - 1 then
                    \<lparr>outcome = Inl (NewError (''Failed after '' @ showNum maxR
                                  @ '' attempts with error: '' @ msg)),
                     calls = Suc attempt, delays = slept\<rparr>
                  else
                    retryLoop toMs fn maxR initialDelay (Suc attempt) (Some error)
                      (slept @ [waitTimeFor toMs initialDelay attempt msg])))
      else
        \<lparr>outcome = Inl (case lastError of None \<Rightarrow> ThrownNull | Some e \<Rightarrow> Rethrown e),
         calls = attempt, delays = slept\<rparr>)"
  by pat_completeness auto
termination
  by (relation "measure (\<lambda>(toMs, fn, maxR, initialDelay, attempt, lastError, slept).
                  nat (maxR - int attempt))") auto

text \<open>Lines 16 and 17: \<open>options.maxRetries ?? MaxRetries\<close> and its companion.\<close>

definition maxAttempts :: "RetryOptions \<Rightarrow> int" where
  "maxAttempts options = (case maxRetries options of None \<Rightarrow> MaxRetries | Some m \<Rightarrow> m)"

definition initialDelayMs :: "RetryOptions \<Rightarrow> int" where
  "initialDelayMs options =
     (case initialRetryDelay options of None \<Rightarrow> InitialRetryDelay | Some d \<Rightarrow> d)"

definition withExponentialBackoff ::
  "(string \<Rightarrow> int) \<Rightarrow> (nat \<Rightarrow> js_error + 'a) \<Rightarrow> RetryOptions \<Rightarrow> 'a retry_run" where
  "withExponentialBackoff toMs fn options =
     retryLoop toMs fn (maxAttempts options) (initialDelayMs options) 0 None []"

text \<open>The classification of line 27: the message exists and mentions a rate limit.\<close>

definition isRateLimit :: "js_error \<Rightarrow> bool" where
  "isRateLimit error =
     (case message error of None \<Rightarrow> False | Some msg \<Rightarrow> js_includes (toLowerCase msg) ''rate limit'')"

text \<open>
  \<open>Math.ceil(parseFloat(g) * 1000)\<close> for a capture \<open>digits[.digits]\<close>, in the arithmetic
  JavaScript uses: \<open>parseFloat\<close> yields the IEEE 754 double nearest to the decimal
  (ties to the even significand), the product is rounded to a double again, and \<open>Math.ceil\<close>
  is exact. A non-negative rational is given as numerator and denominator, a double as
  significand \<open>m\<close> and exponent \<open>e\<close>, standing for \<open>m * 2 ^ e\<close>. The exponent has its lower
  limit (subnormal numbers); the upper limit is left out, so the capture is taken to be
  below \<open>2 ^ 1024 / 1000\<close>, where the product is finite.
\<close>

definition digitVal :: "char \<Rightarrow> nat" where
  "digitVal c = (case map_of (zip ''0123456789'' [0, 1, 2, 3, 4, 5, 6, 7, 8, 9]) c of
                   None \<Rightarrow> 0 | Some d \<Rightarrow> d)"

definition numeral10 :: "string \<Rightarrow> int" where
  "numeral10 ds = foldl (\<lambda>acc c. 10 * acc + int (digitVal c)) 0 ds"

function bitLength :: "int \<Rightarrow> nat" where
  "bitLength n = (if n \<le> 0 then 0 else Suc (bitLength (n div 2)))"
  by pat_completeness auto
termination
  by (relation "measure nat") auto

text \<open>The quotient \<open>a / b\<close> rounded to the nearest integer, a tie going to the even one.\<close>

definition roundTiesEven :: "int \<Rightarrow> int \<Rightarrow> int" where
  "roundTiesEven a b =
     (let q = a div b; r = a mod b
      in if 2 * r < b then q
         else if b < 2 * r then q + 1
         else if even q then q else q + 1)"

text \<open>
  The double nearest to \<open>num / den\<close>: \<open>e0\<close> is the binary exponent of the quotient
  (\<open>2 ^ e0 \<le> num / den < 2 ^ (e0 + 1)\<close>), and the significand has 53 bits.
\<close>

definition toDouble :: "int \<Rightarrow> int \<Rightarrow> int \<times> int" where
  "toDouble num den =
     (if num = 0 then (0, 0)
      else
        (let k = int (bitLength num) - int (bitLength den);
             e0 = (if (if 0 \<le> k then den * 2 ^ nat k \<le> num else den \<le> num * 2 ^ nat (- k))
                   then k else k - 1);
             e = max (e0 - 52) (- 1074)
         in (if 0 \<le> e then roundTiesEven num (den * 2 ^ nat e)
             else roundTiesEven (num * 2 ^ nat (- e)) den, e)))"

definition doubleMs :: "string \<Rightarrow> int" where
  "doubleMs g =
     (let whole = takeWhile isDigit g;
          frac = drop 1 (dropWhile isDigit g);
          (m, e) = toDouble (numeral10 (whole @ frac)) (10 ^ length frac);
          (p, f) = (if 0 \<le> e then toDouble (m * 1000 * 2 ^ nat e) 1
                    else toDouble (m * 1000) (2 ^ nat (- e)))
      in if 0 \<le> f then p * 2 ^ nat f
         else - ((- p) div 2 ^ nat (- f)))"

section \<open>Adaptive prompt trimmer (ai/providers.ts)\<close>

definition MinChunkSize :: nat where
  "MinChunkSize = 140"

text \<open>
  \<open>trimPrompt\<close> uses two things that are not part of its file. The tokenizer
  (\<open>encoder.encode(prompt).length\<close>, from the js-tiktoken package) is the parameter
  \<open>encode\<close>, giving the token count of a string. The splitter
  (\<open>new RecursiveCharacterTextSplitter({chunkSize, chunkOverlap: 0}).splitText\<close>, from
  \<open>./text-splitter\<close>) is the parameter \<open>splitText\<close>, taking the chunk size and the text.
  A string's \<open>length\<close> is the length of its character list.
\<close>

type_synonym tokenizer = "string \<Rightarrow> nat"
type_synonym splitter = "int \<Rightarrow> string \<Rightarrow> string list"

text \<open>Line 77: \<open>splitter.splitText(prompt)[0] ?? ''\<close>.\<close>

definition firstChunk :: "splitter \<Rightarrow> int \<Rightarrow> string \<Rightarrow> string" where
  "firstChunk splitText chunkSize prompt =
     (case splitText chunkSize prompt of [] \<Rightarrow> [] | c # _ \<Rightarrow> c)"

text \<open>Lines 66--68: the target length in characters, three characters per token over budget.\<close>

definition chunkSizeOf :: "tokenizer \<Rightarrow> string \<Rightarrow> int \<Rightarrow> int" where
  "chunkSizeOf encode prompt contextSize =
     (let overflowTokens = int (encode prompt) - contextSize
      in int (length prompt) - overflowTokens * 3)"

text \<open>
  One pass through the body of \<open>trimPrompt\<close> (lines 57--85): it either returns a string
  or calls itself on a new prompt with the same context size.
\<close>

datatype trim_step = Return string | Recurse string

definition trimStep :: "tokenizer \<Rightarrow> splitter \<Rightarrow> string \<Rightarrow> int \<Rightarrow> trim_step" where
  "trimStep encode splitText prompt contextSize =
     (if prompt = [] then Return []
      else if int (encode prompt) \<le> contextSize then Return prompt
      else
        (let chunkSize = chunkSizeOf encode prompt contextSize
         in if chunkSize < int MinChunkSize then Return (take MinChunkSize prompt)
            else
              (let trimmedPrompt = firstChunk splitText chunkSize prompt
               in if length trimmedPrompt = length prompt
                  then Recurse (take (nat chunkSize) prompt)
                  else Recurse trimmedPrompt)))"

text \<open>
  The function itself. Nothing in its text bounds the recursion, so the model is a partial
  function: \<open>None\<close> stands for a call that never returns a string.
\<close>

partial_function (option) trimPrompt :: "tokenizer \<Rightarrow> splitter \<Rightarrow> string \<Rightarrow> int \<Rightarrow> string option" where
  "trimPrompt encode splitText prompt contextSize =
     (case trimStep encode splitText prompt contextSize of
        Return r \<Rightarrow> Some r
      | Recurse p \<Rightarrow> trimPrompt encode splitText p contextSize)"

text \<open>
  Modelled from the spec: the splitter's source (\<open>text-splitter.ts\<close>) is missing. The
  specification has it split the text into chunks, and has the trimmer's output be a
  substring of the original text, never reordered or reworded content: every chunk is a
  contiguous piece of the text that was split.
\<close>

definition splitsIntoSubstrings :: "splitter \<Rightarrow> bool" where
  "splitsIntoSubstrings splitText = (\<forall>n t. \<forall>c \<in> set (splitText n t). sublist c t)"

text \<open>
  \<open>trimCalls encode splitText contextSize prompt p\<close>: the call of \<open>trimPrompt\<close> on \<open>prompt\<close> is,
  or leads through its recursive calls to, the call on \<open>p\<close>.
\<close>

inductive trimCalls :: "tokenizer \<Rightarrow> splitter \<Rightarrow> int \<Rightarrow> string \<Rightarrow> string \<Rightarrow> bool"
  for encode :: tokenizer and splitText :: splitter and contextSize :: int
where
  here: "trimCalls encode splitText contextSize prompt prompt"
| deeper: "trimStep encode splitText prompt contextSize = Recurse p \<Longrightarrow>
           trimCalls encode splitText contextSize p q \<Longrightarrow>
           trimCalls encode splitText contextSize prompt q"

code_pred trimCalls .

text \<open>A splitter to evaluate with: one chunk after the other, each of \<open>n\<close> characters.\<close>

fun sliceChunks :: "nat \<Rightarrow> nat \<Rightarrow> string \<Rightarrow> string list" where
  "sliceChunks 0 n t = []"
| "sliceChunks (Suc fuel) n t =
     (if t = [] \<or> n = 0 then [] else take n t # sliceChunks fuel n (drop n t))"

definition sliceSplitter :: splitter where
  "sliceSplitter n t = sliceChunks (length t) (nat n) t"

text \<open>
  A second splitter: the same slices, each stripped of surrounding white space, the empty
  ones dropped. A text of white space only has no chunk.
\<close>

definition trimmedSplitter :: splitter where
  "trimmedSplitter n t = filter (\<lambda>c. c \<noteq> []) (map js_trim (sliceSplitter n t))"

declare trimPrompt.simps [code]

section \<open>Recursive research orchestrator (deep-research.ts)\<close>

record ResearchResult =
  learnings :: "string list"
  visitedUrls :: "string list"


text \<open>
  One generated query (\<open>{query, researchGoal}\<close>), one entry of a search response's \<open>data\<close>
  (both properties may be missing), and the object the extraction call yields
  (\<open>{learnings, followUpQuestions}\<close>; its first field is \<open>foundLearnings\<close> here, the name
  \<open>learnings\<close> being the result's).
\<close>

record SerpQuery =
  query :: string
  researchGoal :: string

record SearchItem =
  url :: "string option"
  markdown :: "string option"

record Findings =
  foundLearnings :: "string list"
  followUpQuestions :: "string list"

text \<open>
  The remote collaborators, each a function of what the code sends it, \<open>Inl\<close> a rejection
  (timeout, transport error, output that fails the schema):
  \<^item> \<open>llmQueries userQuery numQueries learnings\<close>: the \<open>generateObject\<close> call of
    \<open>generateSerpQueries\<close>, yielding \<open>res.object.queries\<close>;
  \<^item> \<open>firecrawlSearch q\<close>: \<open>firecrawl.search(q, {timeout: 15000, limit: 5, ...})\<close>, yielding
    \<open>result.data\<close>;
  \<^item> \<open>llmFindings q contents numLearnings numFollowUpQuestions\<close>: the \<open>generateObject\<close> call
    of \<open>processSerpResult\<close>, with its 60 s abort signal;
  \<^item> the tokenizer and the splitter that \<open>trimPrompt\<close> uses.
\<close>

record collaborators =
  llmQueries :: "string \<Rightarrow> int \<Rightarrow> string list \<Rightarrow> js_error + SerpQuery list"
  firecrawlSearch :: "string \<Rightarrow> js_error + SearchItem list"
  llmFindings :: "string \<Rightarrow> string list \<Rightarrow> int \<Rightarrow> int \<Rightarrow> js_error + Findings"
  tokenizerOf :: tokenizer
  splitterOf :: splitter

text \<open>\<open>xs.slice(0, n)\<close>; a negative end counts from the end of the array.\<close>

definition sliceTo :: "int \<Rightarrow> 'a list \<Rightarrow> 'a list" where
  "sliceTo n xs = (if 0 \<le> n then take (nat n) xs else take (length xs - nat (- n)) xs)"

text \<open>lodash's \<open>compact\<close> on an array of optional strings: it drops the missing and the empty ones.\<close>

fun compact :: "string option list \<Rightarrow> string list" where
  "compact [] = []"
| "compact (None # xs) = compact xs"
| "compact (Some s # xs) = (if s = [] then compact xs else s # compact xs)"

text \<open>\<open>[...new Set(xs)]\<close>: the distinct values in the order of their first occurrence.\<close>

definition uniqueValues :: "'a list \<Rightarrow> 'a list" where
  "uniqueValues xs = fold (\<lambda>x seen. if x \<in> set seen then seen else seen @ [x]) xs []"

text \<open>\<open>Math.ceil(breadth / 2)\<close>.\<close>

definition halfCeil :: "int \<Rightarrow> int" where
  "halfCeil breadth = \<lceil>real_of_int breadth / 2\<rceil>"

text \<open>Lines 48--99.\<close>

definition generateSerpQueries ::
  "collaborators \<Rightarrow> string \<Rightarrow> int \<Rightarrow> string list \<Rightarrow> js_error + SerpQuery list" where
  "generateSerpQueries env userQuery numQueries priorLearnings =
     (case llmQueries env userQuery numQueries priorLearnings of
        Inl e \<Rightarrow> Inl e
      | Inr queries \<Rightarrow> Inr (sliceTo numQueries queries))"

text \<open>
  Lines 116--162. \<open>trimPrompt\<close> is a plain recursive function: where its recursion never
  ends, the call stack overflows and a \<open>RangeError\<close> is thrown.
\<close>

definition processSerpResult ::
  "collaborators \<Rightarrow> string \<Rightarrow> SearchItem list \<Rightarrow> int \<Rightarrow> int \<Rightarrow> js_error + Findings" where
  "processSerpResult env q result numLearnings numFollowUpQuestions =
     (case those (map (\<lambda>content. trimPrompt (tokenizerOf env) (splitterOf env) content 25000)
                   (compact (map markdown result))) of
        None \<Rightarrow> Inl (JsError (Some ''Maximum call stack size exceeded''))
      | Some contents \<Rightarrow> llmFindings env q contents numLearnings numFollowUpQuestions)"

text \<open>Lines 298--301: the query of the next level.\<close>

definition nextQuery :: "SerpQuery \<Rightarrow> Findings \<Rightarrow> string" where
  "nextQuery serpQuery found =
     js_trim (CHR 0x0A # ''            Previous research goal: '' @ researchGoal serpQuery
              @ CHR 0x0A # ''            Follow-up research directions: ''
              @ concat (map (\<lambda>q. CHR 0x0A # q) (followUpQuestions found))
              @ CHR 0x0A # ''          '')"

text \<open>
  \<open>await Promise.all(tasks)\<close>: the values of all tasks, or the rejection of the first task
  that rejects. The limiter of size 1 runs the tasks of one call one after the other in
  queue order, so the first to reject is the first rejecting one of the list.
\<close>

fun promiseAll :: "('e + 'a) list \<Rightarrow> 'e + 'a list" where
  "promiseAll [] = Inr []"
| "promiseAll (Inl e # ps) = Inl e"
| "promiseAll (Inr v # ps) = (case promiseAll ps of Inl e \<Rightarrow> Inl e | Inr vs \<Rightarrow> Inr (v # vs))"

text \<open>Lines 338--342: the merge of the tasks' results.\<close>

definition mergeResults :: "ResearchResult list \<Rightarrow> ResearchResult" where
  "mergeResults results =
     \<lparr>learnings = uniqueValues (concat (map learnings results)),
      visitedUrls = uniqueValues (concat (map visitedUrls results))\<rparr>"

text \<open>
  \<open>deepResearch\<close> (lines 234--343) and the task it creates per query (lines 260--334).
  Inside the task's \<open>try\<close> block the search and the extraction are awaited, so their
  rejections reach the \<open>catch\<close> clause, which resolves the task to the empty result. The
  recursive call is returned without \<open>await\<close> (line 304, \<open>return deepResearch({...})\<close>):
  an async function leaves its \<open>try\<close> block on \<open>return\<close> and its promise then adopts the
  returned one, so the task settles as the recursive call settles, rejection included.
\<close>

function deepResearch ::
    "collaborators \<Rightarrow> string \<Rightarrow> int \<Rightarrow> int \<Rightarrow> string list \<Rightarrow> string list \<Rightarrow> js_error + ResearchResult"
  and branchTask ::
    "collaborators \<Rightarrow> int \<Rightarrow> int \<Rightarrow> string list \<Rightarrow> string list \<Rightarrow> SerpQuery \<Rightarrow> js_error + ResearchResult"
where
  "deepResearch env userQuery breadth depth priorLearnings priorUrls =
     (case generateSerpQueries env userQuery breadth priorLearnings of
        Inl e \<Rightarrow> Inl e
      | Inr serpQueries \<Rightarrow>
          (case promiseAll (map (\<lambda>serpQuery. branchTask env breadth depth priorLearnings priorUrls serpQuery)
                             serpQueries) of
             Inl e \<Rightarrow> Inl e
           | Inr results \<Rightarrow> Inr (mergeResults results)))"
| "branchTask env breadth depth priorLearnings priorUrls serpQuery =
     (case firecrawlSearch env (query serpQuery) of
        Inl e \<Rightarrow> Inr \<lparr>learnings = [], visitedUrls = []\<rparr>
      | Inr result \<Rightarrow>
          (let newUrls = compact (map url result);
               newBreadth = halfCeil breadth;
               newDepth = depth - 1
           in case processSerpResult env (query serpQuery) result 3 newBreadth of
                Inl e \<Rightarrow> Inr \<lparr>learnings = [], visitedUrls = []\<rparr>
              | Inr newLearnings \<Rightarrow>
                  (let allLearnings = priorLearnings @ foundLearnings newLearnings;
                       allUrls = priorUrls @ newUrls
                   in if newDepth > 0 then
                        deepResearch env (nextQuery serpQuery newLearnings) newBreadth newDepth
                          allLearnings allUrls
                      else Inr \<lparr>learnings = allLearnings, visitedUrls = allUrls\<rparr>)))"
  by pat_completeness auto
termination
  by (relation "measure (\<lambda>x. case x of
                   Inl (env, userQuery, breadth, depth, priorLearnings, priorUrls) \<Rightarrow> 2 * nat depth + 1
                 | Inr (env, breadth, depth, priorLearnings, priorUrls, serpQuery) \<Rightarrow> 2 * nat depth)")
     auto

subsection \<open>The orchestrator with its limiters\<close>








subsection \<open>Collaborators to run the orchestrator with\<close>

text \<open>
  \<open>steadyWeb\<close>: every call succeeds. Two queries are offered at each level, every search
  finds the same page twice (once without content), and every extraction yields one
  learning and one follow-up question.
\<close>

definition steadyWeb :: collaborators where
  "steadyWeb =
     \<lparr>llmQueries = (\<lambda>userQuery numQueries priorLearnings.
         Inr [\<lparr>query = ''q1'', researchGoal = ''g1''\<rparr>, \<lparr>query = ''q2'', researchGoal = ''g2''\<rparr>]),
      firecrawlSearch = (\<lambda>q. Inr [\<lparr>url = Some ''u'', markdown = Some ''m''\<rparr>,
                                    \<lparr>url = Some ''u'', markdown = None\<rparr>]),
      llmFindings = (\<lambda>q contents numLearnings numFollowUpQuestions.
         Inr \<lparr>foundLearnings = [''l''], followUpQuestions = [''f'']\<rparr>),
      tokenizerOf = length,
      splitterOf = sliceSplitter\<rparr>"

text \<open>
  \<open>flakyWeb\<close>: the root call is offered the queries \<open>a\<close> and \<open>b\<close>; query generation fails
  below branch \<open>a\<close> (recognised by its learning \<open>la\<close>) and offers the query \<open>c\<close> anywhere
  else. Searching \<open>q\<close> finds the page \<open>http://q\<close>, and extraction yields the learning \<open>lq\<close>.
\<close>

definition flakyWeb :: collaborators where
  "flakyWeb =
     \<lparr>llmQueries = (\<lambda>userQuery numQueries priorLearnings.
         if priorLearnings = [] then
           Inr [\<lparr>query = ''a'', researchGoal = ''ga''\<rparr>, \<lparr>query = ''b'', researchGoal = ''gb''\<rparr>]
         else if priorLearnings = [''la''] then Inl (JsError (Some ''No object generated''))
         else Inr [\<lparr>query = ''c'', researchGoal = ''gc''\<rparr>]),
      firecrawlSearch = (\<lambda>q. Inr [\<lparr>url = Some (''http://'' @ q), markdown = Some ''m''\<rparr>]),
      llmFindings = (\<lambda>q contents numLearnings numFollowUpQuestions.
         Inr \<lparr>foundLearnings = [CHR ''l'' # q], followUpQuestions = []\<rparr>),
      tokenizerOf = length,
      splitterOf = sliceSplitter\<rparr>"
section \<open>Properties of the backoff retry wrapper\<close>

declare retryLoop.simps [simp del]

lemma isRateLimit_Some: "isRateLimit (JsError (Some m)) = js_includes (toLowerCase m) ''rate limit''"
  by (simp add: isRateLimit_def)

lemma retryLoop_exit:
  "\<not> int a < maxR \<Longrightarrow> retryLoop toMs fn maxR d a le slept =
     \<lparr>outcome = Inl (case le of None \<Rightarrow> ThrownNull | Some e \<Rightarrow> Rethrown e), calls = a, delays = slept\<rparr>"
  by (subst retryLoop.simps) simp

lemma retryLoop_success:
  "int a < maxR \<Longrightarrow> fn a = Inr v \<Longrightarrow>
   retryLoop toMs fn maxR d a le slept = \<lparr>outcome = Inr v, calls = Suc a, delays = slept\<rparr>"
  by (subst retryLoop.simps) simp

lemma retryLoop_other_error:
  "int a < maxR \<Longrightarrow> fn a = Inl e \<Longrightarrow> \<not> isRateLimit e \<Longrightarrow>
   retryLoop toMs fn maxR d a le slept = \<lparr>outcome = Inl (Rethrown e), calls = Suc a, delays = slept\<rparr>"
  by (subst retryLoop.simps) (auto simp: isRateLimit_def split: option.splits)

lemma retryLoop_last_rate_limit:
  "int a = maxR - 1 \<Longrightarrow> fn a = Inl (JsError (Some m)) \<Longrightarrow> isRateLimit (JsError (Some m)) \<Longrightarrow>
   retryLoop toMs fn maxR d a le slept =
     \<lparr>outcome = Inl (NewError (''Failed after '' @ showNum maxR @ '' attempts with error: '' @ m)),
      calls = Suc a, delays = slept\<rparr>"
  by (subst retryLoop.simps) (simp add: isRateLimit_Some)

lemma retryLoop_retry:
  "int a < maxR - 1 \<Longrightarrow> fn a = Inl (JsError (Some m)) \<Longrightarrow> isRateLimit (JsError (Some m)) \<Longrightarrow>
   retryLoop toMs fn maxR d a le slept =
     retryLoop toMs fn maxR d (Suc a) (Some (JsError (Some m))) (slept @ [waitTimeFor toMs d a m])"
  by (subst retryLoop.simps) (simp add: isRateLimit_Some)

lemma retryLoop_skip:
  assumes "\<forall>k. a \<le> k \<and> k < j \<longrightarrow> fn k = Inl (JsError (Some (msgs k))) \<and> isRateLimit (JsError (Some (msgs k)))"
    and "a < j" and "int j < maxR"
  shows "\<exists>le'. retryLoop toMs fn maxR d a le slept =
     retryLoop toMs fn maxR d j le' (slept @ map (\<lambda>k. waitTimeFor toMs d k (msgs k)) [a..<j])"
  using assms
proof (induction "j - a" arbitrary: a le slept)
  case 0
  then show ?case by simp
next
  case (Suc n)
  have fa: "fn a = Inl (JsError (Some (msgs a)))" "isRateLimit (JsError (Some (msgs a)))"
    using Suc.prems by auto
  have step: "retryLoop toMs fn maxR d a le slept =
      retryLoop toMs fn maxR d (Suc a) (Some (JsError (Some (msgs a)))) (slept @ [waitTimeFor toMs d a (msgs a)])"
    using retryLoop_retry [of a maxR fn "msgs a" toMs d le slept] fa Suc.prems by simp
  show ?case
  proof (cases "Suc a = j")
    case True
    then show ?thesis using step by auto
  next
    case False
    then have "Suc a < j" using Suc.prems by simp
    moreover have "n = j - Suc a" using Suc.hyps by simp
    moreover have "\<forall>k. Suc a \<le> k \<and> k < j \<longrightarrow> fn k = Inl (JsError (Some (msgs k))) \<and> isRateLimit (JsError (Some (msgs k)))"
      using Suc.prems by simp
    ultimately obtain le' where "retryLoop toMs fn maxR d (Suc a) (Some (JsError (Some (msgs a)))) (slept @ [waitTimeFor toMs d a (msgs a)]) =
       retryLoop toMs fn maxR d j le' ((slept @ [waitTimeFor toMs d a (msgs a)]) @ map (\<lambda>k. waitTimeFor toMs d k (msgs k)) [Suc a..<j])"
      using Suc.hyps(1) [of "Suc a"] Suc.prems(3) by blast
    then show ?thesis using step \<open>Suc a < j\<close> by (auto simp: upt_conv_Cons)
  qed
qed

lemma retryLoop_from_zero:
  assumes "\<forall>k<j. fn k = Inl (JsError (Some (msgs k))) \<and> isRateLimit (JsError (Some (msgs k)))"
    and "int j < maxR"
  shows "\<exists>le'. retryLoop toMs fn maxR d 0 None [] =
     retryLoop toMs fn maxR d j le' (map (\<lambda>k. waitTimeFor toMs d k (msgs k)) [0..<j])"
proof (cases "j = 0")
  case True
  then show ?thesis by auto
next
  case False
  then show ?thesis using retryLoop_skip [of 0 j fn msgs maxR toMs d None "[]"] assms by auto
qed

lemma waitTimeFor_cases:
  "waitTimeFor toMs d k m =
     (case waitMatch m of
        None \<Rightarrow> d * 2 ^ k
      | Some g \<Rightarrow> if toMs g \<noteq> 0 then toMs g else d * 2 ^ k)"
  by (simp add: waitTimeFor_def split: option.splits)

text \<open>
  Claim C8. When the wrapper makes at least one attempt and the operation's first
  invocation fails with an error that is not classified as a rate-limit condition (its
  message is absent or does not mention a rate limit), that very error is thrown at once:
  the operation has been invoked exactly once and no delay has been slept.
\<close>

theorem backoff_non_rate_limit:
  assumes "0 < maxAttempts options" and "fn 0 = Inl e" and "\<not> isRateLimit e"
  shows "withExponentialBackoff toMs fn options = \<lparr>outcome = Inl (Rethrown e), calls = 1, delays = []\<rparr>"
  using retryLoop_other_error [of 0 "maxAttempts options" fn e toMs] assms
  by (simp add: withExponentialBackoff_def)

theorem backoff_non_rate_limit_witness:
  "0 < maxAttempts \<lparr>maxRetries = None, initialRetryDelay = None\<rparr>
   \<and> \<not> isRateLimit (JsError (Some ''Timeout''))
   \<and> withExponentialBackoff doubleMs (\<lambda>k. Inl (JsError (Some ''Timeout'')) :: js_error + nat)
        \<lparr>maxRetries = None, initialRetryDelay = None\<rparr>
       = \<lparr>outcome = Inl (Rethrown (JsError (Some ''Timeout''))), calls = 1, delays = []\<rparr>"
proof -
  have a: "0 < maxAttempts \<lparr>maxRetries = None, initialRetryDelay = None\<rparr>"
    by (simp add: maxAttempts_def MaxRetries_def)
  have b: "\<not> isRateLimit (JsError (Some ''Timeout''))"
    by (simp add: isRateLimit_def toLowerCase_def toLowerChar_def)
  show ?thesis
    using a b backoff_non_rate_limit [OF a _ b, of "\<lambda>k. Inl (JsError (Some ''Timeout''))" doubleMs]
    by simp
qed

text \<open>
  What the loop does when the wrapper is allowed \<open>n \<ge> 1\<close> attempts and the first \<open>n - 1\<close>
  invocations fail with rate-limit errors carrying the messages \<open>msgs k\<close>: it sleeps after
  each of them, \<open>n - 1\<close> times in all, and then either returns the value of invocation \<open>n\<close>
  or, if that fails with a rate-limit error too, throws a new error whose text states the
  attempt count and embeds the last message. The delay after invocation \<open>k\<close> is the wait
  that line 41 computes from \<open>msgs k\<close>, unless there is none or it is 0, and
  \<open>initialRetryDelay * 2 ^ k\<close> then.
\<close>

lemma retry_schedule:
  fixes n :: nat
  assumes "maxAttempts options = int n" and "0 < n"
    and "\<forall>k<n - 1. fn k = Inl (JsError (Some (msgs k))) \<and> isRateLimit (JsError (Some (msgs k)))"
  shows "(fn (n - 1) = Inr v \<longrightarrow>
            outcome (withExponentialBackoff toMs fn options) = Inr v
          \<and> calls (withExponentialBackoff toMs fn options) = n
          \<and> length (delays (withExponentialBackoff toMs fn options)) = n - 1
          \<and> (\<forall>k<n - 1. delays (withExponentialBackoff toMs fn options) ! k =
               (case waitMatch (msgs k) of
                  None \<Rightarrow> initialDelayMs options * 2 ^ k
                | Some g \<Rightarrow> if toMs g \<noteq> 0 then toMs g else initialDelayMs options * 2 ^ k)))
       \<and> (fn (n - 1) = Inl (JsError (Some m)) \<and> isRateLimit (JsError (Some m)) \<longrightarrow>
            outcome (withExponentialBackoff toMs fn options) =
              Inl (NewError (''Failed after '' @ showNum (int n) @ '' attempts with error: '' @ m))
          \<and> calls (withExponentialBackoff toMs fn options) = n
          \<and> length (delays (withExponentialBackoff toMs fn options)) = n - 1)"
proof -
  let ?d = "initialDelayMs options"
  let ?ws = "map (\<lambda>k. waitTimeFor toMs ?d k (msgs k)) [0..<n - 1]"
  have lt: "int (n - 1) < int n" using assms(2) by simp
  obtain le' where run: "withExponentialBackoff toMs fn options =
      retryLoop toMs fn (int n) ?d (n - 1) le' ?ws"
    using retryLoop_from_zero [OF assms(3) lt, of toMs ?d]
    by (auto simp: withExponentialBackoff_def assms(1))
  have nth: "\<forall>k<n - 1. ?ws ! k = (case waitMatch (msgs k) of
                  None \<Rightarrow> ?d * 2 ^ k
                | Some g \<Rightarrow> if toMs g \<noteq> 0 then toMs g else ?d * 2 ^ k)"
    by (auto simp: waitTimeFor_cases split: option.splits)
  have suc: "Suc (n - 1) = n" using assms(2) by simp
  have A: "fn (n - 1) = Inr v \<Longrightarrow> withExponentialBackoff toMs fn options =
       \<lparr>outcome = Inr v, calls = n, delays = ?ws\<rparr>"
    using retryLoop_success [OF lt, of fn v toMs ?d le' ?ws] run suc by simp
  have last: "int (n - 1) = int n - 1" using assms(2) by simp
  have B: "fn (n - 1) = Inl (JsError (Some m)) \<Longrightarrow> isRateLimit (JsError (Some m)) \<Longrightarrow>
      withExponentialBackoff toMs fn options =
       \<lparr>outcome = Inl (NewError (''Failed after '' @ showNum (int n) @ '' attempts with error: '' @ m)),
        calls = n, delays = ?ws\<rparr>"
    using retryLoop_last_rate_limit [OF last, of fn m toMs ?d le' ?ws] run suc by simp
  show ?thesis
  proof (intro conjI impI)
    assume h: "fn (n - 1) = Inr v"
    show "outcome (withExponentialBackoff toMs fn options) = Inr v" using A [OF h] by simp
    show "calls (withExponentialBackoff toMs fn options) = n" using A [OF h] by simp
    show "length (delays (withExponentialBackoff toMs fn options)) = n - 1" using A [OF h] by simp
    show "\<forall>k<n - 1. delays (withExponentialBackoff toMs fn options) ! k =
               (case waitMatch (msgs k) of
                  None \<Rightarrow> ?d * 2 ^ k
                | Some g \<Rightarrow> if toMs g \<noteq> 0 then toMs g else ?d * 2 ^ k)"
      using A [OF h] nth by simp
  next
    assume h: "fn (n - 1) = Inl (JsError (Some m)) \<and> isRateLimit (JsError (Some m))"
    then have B': "withExponentialBackoff toMs fn options =
       \<lparr>outcome = Inl (NewError (''Failed after '' @ showNum (int n) @ '' attempts with error: '' @ m)),
        calls = n, delays = ?ws\<rparr>" using B by simp
    show "outcome (withExponentialBackoff toMs fn options) =
              Inl (NewError (''Failed after '' @ showNum (int n) @ '' attempts with error: '' @ m))"
      using B' by simp
    show "calls (withExponentialBackoff toMs fn options) = n" using B' by simp
    show "length (delays (withExponentialBackoff toMs fn options)) = n - 1" using B' by simp
  qed
qed

lemma doubleMs_values:
  "doubleMs ''0'' = 0" "doubleMs ''0.25'' = 250" "doubleMs ''20'' = 20000" "doubleMs ''4.03'' = 4031"
  by code_simp+

text \<open>
  Claim C9 has every delay equal the wait interval that the error message encodes,
  whenever it encodes one. The message \<open>Rate limit: try again in 0s\<close> encodes the interval 0:
  the regular expression matches, captures \<open>0\<close>, and line 41 computes 0 ms. Line 45 then
  takes this 0 for a wait that could not be extracted, and the wrapper sleeps
  \<open>initialRetryDelay * 2 ^ 0 = 1000\<close> ms before the second invocation, whose value it
  returns.
\<close>

theorem backoff_zero_wait_replaced:
  "waitMatch ''Rate limit: try again in 0s'' = Some ''0'' \<and> doubleMs ''0'' = 0
   \<and> withExponentialBackoff doubleMs
        (\<lambda>k. if k < 1 then Inl (JsError (Some ''Rate limit: try again in 0s'')) else Inr (7::nat))
        \<lparr>maxRetries = Some 2, initialRetryDelay = Some 1000\<rparr>
       = \<lparr>outcome = Inr 7, calls = 2, delays = [1000]\<rparr>"
proof -
  let ?m = "''Rate limit: try again in 0s''"
  have w: "waitMatch ?m = Some ''0''"
    by (simp add: matchHere_def toLowerCase_def toLowerChar_def isDigit_def)
  have c: "doubleMs ''0'' = 0" by (rule doubleMs_values(1))
  have r: "js_includes (toLowerCase ?m) ''rate limit''"
    by (simp add: toLowerCase_def toLowerChar_def)
  have d: "withExponentialBackoff doubleMs
        (\<lambda>k. if k < 1 then Inl (JsError (Some ?m)) else Inr (7::nat))
        \<lparr>maxRetries = Some 2, initialRetryDelay = Some 1000\<rparr>
       = \<lparr>outcome = Inr 7, calls = 2, delays = [1000]\<rparr>"
    unfolding withExponentialBackoff_def maxAttempts_def initialDelayMs_def
    apply (subst retryLoop.simps)
    apply (simp add: r waitTimeFor_def w c del: waitMatch.simps)
    apply (subst retryLoop.simps)
    apply simp
    done
  show ?thesis using w c d by (simp del: waitMatch.simps)
qed

text \<open>
  Claim C10. With \<open>options.maxRetries\<close> set to zero or to a negative number the loop body
  never runs: the operation is not invoked, nothing is slept, and the value thrown is the
  initial \<open>lastError\<close>, that is \<open>null\<close>.
\<close>

theorem backoff_no_attempts:
  assumes "maxRetries options = Some m" and "m \<le> 0"
  shows "withExponentialBackoff toMs fn options = \<lparr>outcome = Inl ThrownNull, calls = 0, delays = []\<rparr>"
  using retryLoop_exit [of 0 m toMs fn "initialDelayMs options" None "[]"] assms
  by (simp add: withExponentialBackoff_def maxAttempts_def)

theorem backoff_no_attempts_witness:
  "maxRetries \<lparr>maxRetries = Some 0, initialRetryDelay = None\<rparr> = Some 0 \<and> (0::int) \<le> 0
   \<and> withExponentialBackoff doubleMs (\<lambda>k. Inr k) \<lparr>maxRetries = Some 0, initialRetryDelay = None\<rparr>
       = \<lparr>outcome = Inl ThrownNull, calls = 0, delays = []\<rparr>"
  using backoff_no_attempts [of "\<lparr>maxRetries = Some 0, initialRetryDelay = None\<rparr>" 0 doubleMs "\<lambda>k. Inr k"]
  by simp

section \<open>Properties of the prompt trimmer\<close>

lemma trimStep_Return_cases:
  assumes "trimStep encode splitText p b = Return r"
  shows "r = [] \<and> p = []
       \<or> r = p \<and> int (encode p) \<le> b
       \<or> r = take MinChunkSize p \<and> b < int (encode p) \<and> chunkSizeOf encode p b < int MinChunkSize"
  using assms by (auto simp: trimStep_def Let_def split: if_splits)

lemma trimStep_fixed:
  assumes "r = [] \<or> int (encode r) \<le> b \<or> length r \<le> MinChunkSize"
  shows "trimStep encode splitText r b = Return r"
proof (cases "r = [] \<or> int (encode r) \<le> b")
  case True
  then show ?thesis by (auto simp: trimStep_def)
next
  case False
  then have len: "length r \<le> MinChunkSize" and over: "b < int (encode r)" using assms by auto
  have "chunkSizeOf encode r b < int (length r)" using over by (simp add: chunkSizeOf_def Let_def)
  then have "chunkSizeOf encode r b < int MinChunkSize" using len by linarith
  then show ?thesis using False len by (simp add: trimStep_def Let_def)
qed

lemma trimPrompt_Return:
  "trimStep encode splitText p b = Return r \<Longrightarrow> trimPrompt encode splitText p b = Some r"
  by (subst trimPrompt.simps) simp

lemma trimPrompt_Recurse:
  "trimStep encode splitText p b = Recurse q \<Longrightarrow>
   trimPrompt encode splitText p b = trimPrompt encode splitText q b"
  by (subst trimPrompt.simps) simp

lemma trimPrompt_result_fixed:
  "trimPrompt encode splitText p b = Some r \<Longrightarrow>
   r = [] \<or> int (encode r) \<le> b \<or> length r \<le> MinChunkSize"
proof (induct encode splitText p b r rule: trimPrompt.raw_induct [rotated 1, consumes 1])
  case (1 rec encode splitText p b r)
  show ?case
  proof (cases "trimStep encode splitText p b")
    case (Return r')
    then have "trimStep encode splitText p b = Return r" using 1(2) by simp
    then show ?thesis using trimStep_Return_cases [of encode splitText p b r]
      by (auto simp: MinChunkSize_def)
  next
    case (Recurse q)
    then show ?thesis using 1 by simp
  qed
qed

lemma trimStep_Recurse_shorter:
  assumes "length (firstChunk splitText (chunkSizeOf encode p b) p) \<le> length p"
    and "trimStep encode splitText p b = Recurse q"
  shows "length q < length p"
proof -
  have ne: "p \<noteq> []" and over: "b < int (encode p)"
    and big: "int MinChunkSize \<le> chunkSizeOf encode p b"
    using assms(2) by (auto simp: trimStep_def Let_def split: if_splits)
  have lt: "chunkSizeOf encode p b < int (length p)"
    using over by (simp add: chunkSizeOf_def Let_def)
  show ?thesis
  proof (cases "length (firstChunk splitText (chunkSizeOf encode p b) p) = length p")
    case True
    then have "q = take (nat (chunkSizeOf encode p b)) p"
      using assms(2) ne over big by (simp add: trimStep_def Let_def)
    then show ?thesis using lt big by simp
  next
    case False
    then have "q = firstChunk splitText (chunkSizeOf encode p b) p"
      using assms(2) ne over big by (simp add: trimStep_def Let_def)
    then show ?thesis using False assms(1) by simp
  qed
qed

lemma firstChunk_sublist:
  "splitsIntoSubstrings splitText \<Longrightarrow> sublist (firstChunk splitText n t) t"
proof (cases "splitText n t")
  case Nil
  then show ?thesis by (simp add: firstChunk_def)
next
  case (Cons c cs)
  assume "splitsIntoSubstrings splitText"
  then have "\<forall>x \<in> set (splitText n t). sublist x t" by (simp add: splitsIntoSubstrings_def)
  then show ?thesis using Cons by (simp add: firstChunk_def)
qed

lemma firstChunk_length:
  "splitsIntoSubstrings splitText \<Longrightarrow> length (firstChunk splitText n t) \<le> length t"
  by (rule sublist_length_le) (rule firstChunk_sublist)

lemma trimPrompt_total:
  assumes "splitsIntoSubstrings splitText"
  shows "\<exists>r. trimPrompt encode splitText p b = Some r"
proof (induction "length p" arbitrary: p rule: less_induct)
  case less
  show ?case
  proof (cases "trimStep encode splitText p b")
    case (Return r)
    then show ?thesis using trimPrompt_Return by blast
  next
    case (Recurse q)
    then have "length q < length p"
      using trimStep_Recurse_shorter firstChunk_length [OF assms] by blast
    then show ?thesis using less trimPrompt_Recurse [OF Recurse] by simp
  qed
qed

text \<open>
  Claim C7. For a splitter whose chunks are substrings of the text it splits, every
  recursive call of \<open>trimPrompt\<close> is on a strictly shorter prompt: when the first chunk is
  as long as the prompt, the call is on the hard slice of exactly \<open>chunkSize\<close> characters,
  fewer than the prompt has; otherwise it is on the first chunk, which is shorter. Hence
  \<open>trimPrompt\<close> returns a string for every prompt and every context size.
\<close>

theorem trimPrompt_terminates:
  assumes "splitsIntoSubstrings splitText"
  shows "(\<forall>q. trimStep encode splitText prompt contextSize = Recurse q \<longrightarrow> length q < length prompt)
       \<and> (\<forall>q. trimStep encode splitText prompt contextSize = Recurse q
              \<and> length (firstChunk splitText (chunkSizeOf encode prompt contextSize) prompt) = length prompt
              \<longrightarrow> q = take (nat (chunkSizeOf encode prompt contextSize)) prompt
                \<and> int (length q) = chunkSizeOf encode prompt contextSize)
       \<and> (\<exists>r. trimPrompt encode splitText prompt contextSize = Some r)"
proof (intro conjI allI impI)
  fix q assume "trimStep encode splitText prompt contextSize = Recurse q"
  then show "length q < length prompt"
    using trimStep_Recurse_shorter firstChunk_length [OF assms] by blast
next
  fix q
  assume h: "trimStep encode splitText prompt contextSize = Recurse q
     \<and> length (firstChunk splitText (chunkSizeOf encode prompt contextSize) prompt) = length prompt"
  then have ne: "prompt \<noteq> []" and over: "contextSize < int (encode prompt)"
    and big: "int MinChunkSize \<le> chunkSizeOf encode prompt contextSize"
    by (auto simp: trimStep_def Let_def split: if_splits)
  have lt: "chunkSizeOf encode prompt contextSize < int (length prompt)"
    using over by (simp add: chunkSizeOf_def Let_def)
  show "q = take (nat (chunkSizeOf encode prompt contextSize)) prompt"
    using h ne over big by (auto simp: trimStep_def Let_def)
  then show "int (length q) = chunkSizeOf encode prompt contextSize"
    using lt big by simp
next
  show "\<exists>r. trimPrompt encode splitText prompt contextSize = Some r"
    by (rule trimPrompt_total [OF assms])
qed


lemma trimStep_Recurse_cases:
  assumes "trimStep encode splitText p b = Recurse q"
  shows "p \<noteq> [] \<and> b < int (encode p)
       \<and> int MinChunkSize \<le> chunkSizeOf encode p b \<and> chunkSizeOf encode p b < int (length p)
       \<and> (q = take (nat (chunkSizeOf encode p b)) p \<or> q = firstChunk splitText (chunkSizeOf encode p b) p)"
proof -
  have a: "p \<noteq> []" and over: "b < int (encode p)"
    and big: "int MinChunkSize \<le> chunkSizeOf encode p b"
    using assms by (auto simp: trimStep_def Let_def split: if_splits)
  have lt: "chunkSizeOf encode p b < int (length p)"
    using over by (simp add: chunkSizeOf_def Let_def)
  have "q = take (nat (chunkSizeOf encode p b)) p \<or> q = firstChunk splitText (chunkSizeOf encode p b) p"
    using assms a over big by (auto simp: trimStep_def Let_def split: if_splits)
  then show ?thesis using a over big lt by simp
qed

lemma trimPrompt_last_call:
  assumes sub: "splitsIntoSubstrings splitText"
  shows "\<exists>p r. trimPrompt encode splitText prompt budget = Some r
           \<and> trimCalls encode splitText budget prompt p
           \<and> trimStep encode splitText p budget = Return r
           \<and> sublist p prompt
           \<and> (p = [] \<and> prompt \<noteq> [] \<longrightarrow>
                (\<exists>p'. trimCalls encode splitText budget prompt p'
                    \<and> trimStep encode splitText p' budget = Recurse []
                    \<and> firstChunk splitText (chunkSizeOf encode p' budget) p' = []))
           \<and> ((\<forall>n t. prefix (firstChunk splitText n t) t) \<longrightarrow> prefix p prompt)"
proof (induction "length prompt" arbitrary: prompt rule: less_induct)
  case less
  show ?case
  proof (cases "trimStep encode splitText prompt budget")
    case (Return r)
    have "trimPrompt encode splitText prompt budget = Some r" by (rule trimPrompt_Return [OF Return])
    moreover have "trimCalls encode splitText budget prompt prompt" by (rule trimCalls.here)
    ultimately show ?thesis using Return by blast
  next
    case (Recurse q)
    note c = trimStep_Recurse_cases [OF Recurse]
    have shorter: "length q < length prompt"
      using trimStep_Recurse_shorter [OF firstChunk_length [OF sub] Recurse] .
    have subq: "sublist q prompt" using c firstChunk_sublist [OF sub] by auto
    have take_ne: "take (nat (chunkSizeOf encode prompt budget)) prompt \<noteq> []"
      using c by (auto simp: MinChunkSize_def)
    have preq: "prefix q prompt" if "\<forall>n t. prefix (firstChunk splitText n t) t"
      using c that take_is_prefix by auto
    obtain p r where ih:
      "trimPrompt encode splitText q budget = Some r"
      "trimCalls encode splitText budget q p"
      "trimStep encode splitText p budget = Return r"
      "sublist p q"
      "p = [] \<and> q \<noteq> [] \<longrightarrow>
         (\<exists>p'. trimCalls encode splitText budget q p'
             \<and> trimStep encode splitText p' budget = Recurse []
             \<and> firstChunk splitText (chunkSizeOf encode p' budget) p' = [])"
      "(\<forall>n t. prefix (firstChunk splitText n t) t) \<longrightarrow> prefix p q"
      using less [OF shorter] by blast
    have run: "trimPrompt encode splitText prompt budget = Some r"
      using ih(1) trimPrompt_Recurse [OF Recurse] by simp
    have calls: "trimCalls encode splitText budget prompt p"
      by (rule trimCalls.deeper [OF Recurse ih(2)])
    have subp: "sublist p prompt" using ih(4) subq sublist_order.order_trans by blast
    have empty: "\<exists>p'. trimCalls encode splitText budget prompt p'
                    \<and> trimStep encode splitText p' budget = Recurse []
                    \<and> firstChunk splitText (chunkSizeOf encode p' budget) p' = []"
      if pe: "p = []"
    proof (cases "q = []")
      case True
      then have "firstChunk splitText (chunkSizeOf encode prompt budget) prompt = []"
        using c take_ne by auto
      moreover have "trimCalls encode splitText budget prompt prompt" by (rule trimCalls.here)
      ultimately show ?thesis using Recurse True by blast
    next
      case False
      then obtain p' where "trimCalls encode splitText budget q p'"
          "trimStep encode splitText p' budget = Recurse []"
          "firstChunk splitText (chunkSizeOf encode p' budget) p' = []"
        using ih(5) pe by blast
      then show ?thesis using trimCalls.deeper [OF Recurse] by blast
    qed
    have pre: "prefix p prompt" if "\<forall>n t. prefix (firstChunk splitText n t) t"
      using ih(6) preq that prefix_order.order_trans by blast
    show ?thesis using run calls ih(3) subp empty pre by blast
  qed
qed

text \<open>
  Claim C5, as the code has it. For a splitter whose chunks are substrings of the text,
  \<open>trimPrompt\<close> returns a string \<open>r\<close> for every text and budget, namely what its last call
  returns, the call on a piece \<open>p\<close> of the text that the recursion has reached (\<open>p\<close> is the
  text itself when there is no recursion): \<open>r\<close> is \<open>p\<close> unchanged with a token count within
  the budget, or the first 140 characters of \<open>p\<close> when \<open>p\<close> is over budget and its target
  length is below the floor of 140, or empty when \<open>p\<close> is. So a text whose own target length
  is below the floor is cut to its first 140 characters. The result is empty for a text
  that is not only when the splitter had no first chunk, or an empty one, to offer at some
  call. Where every first chunk is a prefix of the text it was split from, \<open>p\<close> and \<open>r\<close> are
  prefixes of the text.
\<close>

theorem trimPrompt_budget_or_floor:
  assumes "splitsIntoSubstrings splitText"
  shows "\<exists>p r. trimPrompt encode splitText prompt budget = Some r
           \<and> trimCalls encode splitText budget prompt p
           \<and> trimStep encode splitText p budget = Return r
           \<and> sublist p prompt
           \<and> (p = [] \<and> r = []
              \<or> p \<noteq> [] \<and> int (encode p) \<le> budget \<and> r = p
              \<or> p \<noteq> [] \<and> budget < int (encode p)
                  \<and> chunkSizeOf encode p budget < int MinChunkSize \<and> r = take MinChunkSize p)
           \<and> (prompt \<noteq> [] \<and> budget < int (encode prompt)
                \<and> chunkSizeOf encode prompt budget < int MinChunkSize
                \<longrightarrow> r = take MinChunkSize prompt)
           \<and> (r = [] \<and> prompt \<noteq> [] \<longrightarrow>
                (\<exists>p'. trimCalls encode splitText budget prompt p'
                    \<and> trimStep encode splitText p' budget = Recurse []
                    \<and> firstChunk splitText (chunkSizeOf encode p' budget) p' = []))
           \<and> ((\<forall>n t. prefix (firstChunk splitText n t) t) \<longrightarrow> prefix p prompt \<and> prefix r prompt)"
proof -
  obtain p r where l:
    "trimPrompt encode splitText prompt budget = Some r"
    "trimCalls encode splitText budget prompt p"
    "trimStep encode splitText p budget = Return r"
    "sublist p prompt"
    "p = [] \<and> prompt \<noteq> [] \<longrightarrow>
       (\<exists>p'. trimCalls encode splitText budget prompt p'
           \<and> trimStep encode splitText p' budget = Recurse []
           \<and> firstChunk splitText (chunkSizeOf encode p' budget) p' = [])"
    "(\<forall>n t. prefix (firstChunk splitText n t) t) \<longrightarrow> prefix p prompt"
    using trimPrompt_last_call [OF assms, of encode prompt budget] by blast
  have shape: "p = [] \<and> r = []
              \<or> p \<noteq> [] \<and> int (encode p) \<le> budget \<and> r = p
              \<or> p \<noteq> [] \<and> budget < int (encode p)
                  \<and> chunkSizeOf encode p budget < int MinChunkSize \<and> r = take MinChunkSize p"
    using l(3) by (auto simp: trimStep_def Let_def split: if_splits)
  have top: "r = take MinChunkSize prompt"
    if "prompt \<noteq> [] \<and> budget < int (encode prompt)
        \<and> chunkSizeOf encode prompt budget < int MinChunkSize"
  proof -
    have "trimStep encode splitText prompt budget = Return (take MinChunkSize prompt)"
      using that by (simp add: trimStep_def Let_def)
    then have "trimPrompt encode splitText prompt budget = Some (take MinChunkSize prompt)"
      by (rule trimPrompt_Return)
    then show ?thesis using l(1) by simp
  qed
  have rp: "r = [] \<longrightarrow> p = []" using shape by (auto simp: MinChunkSize_def)
  have pr: "prefix r p" using shape take_is_prefix by auto
  have pre: "prefix p prompt \<and> prefix r prompt" if "\<forall>n t. prefix (firstChunk splitText n t) t"
    using l(6) pr that prefix_order.order_trans by blast
  show ?thesis using l(1-5) shape top rp pre by blast
qed

text \<open>
  Claim C6. Whatever \<open>trimPrompt\<close> returns, trimming it again with the same budget returns
  it unchanged (and for a splitter whose chunks are substrings of the text, \<open>trimPrompt\<close>
  does return); the empty text maps to the empty text, and a text at or under budget is
  returned as it is.
\<close>

theorem trimPrompt_idempotent:
  "(\<forall>r. trimPrompt encode splitText prompt budget = Some r \<longrightarrow>
         trimPrompt encode splitText r budget = Some r)
   \<and> (splitsIntoSubstrings splitText \<longrightarrow>
        (\<exists>r. trimPrompt encode splitText prompt budget = Some r
            \<and> trimPrompt encode splitText r budget = Some r))
   \<and> trimPrompt encode splitText [] budget = Some []
   \<and> (int (encode prompt) \<le> budget \<longrightarrow> trimPrompt encode splitText prompt budget = Some prompt)"
proof -
  have idem: "trimPrompt encode splitText r budget = Some r"
    if "trimPrompt encode splitText prompt budget = Some r" for r
  proof -
    have "r = [] \<or> int (encode r) \<le> budget \<or> length r \<le> MinChunkSize"
      using trimPrompt_result_fixed [OF that] .
    then have "trimStep encode splitText r budget = Return r" by (rule trimStep_fixed)
    then show ?thesis by (rule trimPrompt_Return)
  qed
  have tot: "\<exists>r. trimPrompt encode splitText prompt budget = Some r
            \<and> trimPrompt encode splitText r budget = Some r"
    if "splitsIntoSubstrings splitText"
    using trimPrompt_total [OF that, of encode prompt budget] idem by blast
  have e: "trimPrompt encode splitText [] budget = Some []"
    by (rule trimPrompt_Return) (simp add: trimStep_fixed)
  have u: "trimPrompt encode splitText prompt budget = Some prompt" if "int (encode prompt) \<le> budget"
    by (rule trimPrompt_Return) (simp add: trimStep_fixed that)
  show ?thesis using idem tot e u by blast
qed

subsection \<open>Runs with the slicing splitter\<close>

lemma sliceChunks_sublist:
  "c \<in> set (sliceChunks fuel n t) \<Longrightarrow> sublist c t"
proof (induction fuel arbitrary: t)
  case 0
  then show ?case by simp
next
  case (Suc fuel)
  show ?case
  proof (cases "t = [] \<or> n = 0")
    case True
    then show ?thesis using Suc.prems by simp
  next
    case False
    then have "c = take n t \<or> c \<in> set (sliceChunks fuel n (drop n t))"
      using Suc.prems by auto
    then show ?thesis
    proof
      assume "c = take n t"
      then show ?thesis by simp
    next
      assume "c \<in> set (sliceChunks fuel n (drop n t))"
      then have "sublist c (drop n t)" by (rule Suc.IH)
      then show ?thesis using sublist_drop sublist_order.order_trans by blast
    qed
  qed
qed

lemma sliceSplitter_substrings: "splitsIntoSubstrings sliceSplitter"
  by (simp add: splitsIntoSubstrings_def sliceSplitter_def sliceChunks_sublist)

lemma firstChunk_sliceSplitter:
  "t \<noteq> [] \<Longrightarrow> 0 < n \<Longrightarrow> firstChunk sliceSplitter n t = take (nat n) t"
  by (cases t) (simp_all add: firstChunk_def sliceSplitter_def)

lemma trimStep_example:
  "trimStep length sliceSplitter (replicate 200 CHR ''a'') 190 = Recurse (replicate 170 CHR ''a'')"
proof -
  have ne: "replicate 200 CHR ''a'' \<noteq> []" by simp
  have "firstChunk sliceSplitter 170 (replicate 200 CHR ''a'') = replicate 170 CHR ''a''"
    using firstChunk_sliceSplitter [OF ne, of 170] by simp
  then show ?thesis by (simp add: trimStep_def chunkSizeOf_def MinChunkSize_def)
qed

lemma trimPrompt_example:
  "trimPrompt length sliceSplitter (replicate 200 CHR ''a'') 190 = Some (replicate 170 CHR ''a'')"
proof -
  have "trimStep length sliceSplitter (replicate 170 CHR ''a'') 190 = Return (replicate 170 CHR ''a'')"
    by (simp add: trimStep_def)
  then show ?thesis
    using trimPrompt_Recurse [OF trimStep_example] trimPrompt_Return by simp
qed

lemma trimPrompt_floor_example:
  "trimPrompt length sliceSplitter (replicate 200 CHR ''a'') 100 = Some (replicate 140 CHR ''a'')"
  by (rule trimPrompt_Return) (simp add: trimStep_def chunkSizeOf_def MinChunkSize_def)

theorem trimPrompt_budget_or_floor_witness:
  "splitsIntoSubstrings sliceSplitter
   \<and> trimPrompt length sliceSplitter (replicate 200 CHR ''a'') 100
        = Some (take MinChunkSize (replicate 200 CHR ''a''))
   \<and> take MinChunkSize (replicate 200 CHR ''a'') = replicate 140 CHR ''a''
   \<and> trimCalls length sliceSplitter 190 (replicate 200 CHR ''a'') (replicate 170 CHR ''a'')
   \<and> trimPrompt length sliceSplitter (replicate 200 CHR ''a'') 190 = Some (replicate 170 CHR ''a'')"
proof -
  obtain r where r: "trimPrompt length sliceSplitter (replicate 200 CHR ''a'') 100 = Some r"
    "replicate 200 CHR ''a'' \<noteq> [] \<and> 100 < int (length (replicate 200 CHR ''a''))
       \<and> chunkSizeOf length (replicate 200 CHR ''a'') 100 < int MinChunkSize
     \<longrightarrow> r = take MinChunkSize (replicate 200 CHR ''a'')"
    using trimPrompt_budget_or_floor [OF sliceSplitter_substrings,
            of length "replicate 200 CHR ''a''" 100]
    by blast
  have "r = take MinChunkSize (replicate 200 CHR ''a'')"
    using r(2) by (simp add: chunkSizeOf_def MinChunkSize_def)
  then have a: "trimPrompt length sliceSplitter (replicate 200 CHR ''a'') 100
        = Some (take MinChunkSize (replicate 200 CHR ''a''))" using r(1) by simp
  have b: "trimCalls length sliceSplitter 190 (replicate 200 CHR ''a'') (replicate 170 CHR ''a'')"
    by (rule trimCalls.deeper [OF trimStep_example trimCalls.here])
  show ?thesis using a b sliceSplitter_substrings trimPrompt_example
    by (simp add: MinChunkSize_def)
qed

subsection \<open>A text of white space\<close>

lemma js_trim_sublist: "sublist (js_trim s) s"
proof -
  let ?d = "dropWhile isWhiteSpace s"
  have "suffix (dropWhile isWhiteSpace (rev ?d)) (rev ?d)" by (rule suffix_dropWhile)
  then have "prefix (js_trim s) ?d" by (simp add: js_trim_def suffix_to_prefix)
  moreover have "suffix ?d s" by (rule suffix_dropWhile)
  ultimately show ?thesis
    using prefix_imp_sublist suffix_imp_sublist sublist_order.order_trans by blast
qed

lemma trimmedSplitter_substrings: "splitsIntoSubstrings trimmedSplitter"
proof -
  have "sublist c t" if mem: "c \<in> set (trimmedSplitter n t)" for c n t
  proof -
    obtain c' where c': "c' \<in> set (sliceSplitter n t)" "c = js_trim c'"
      using mem by (auto simp: trimmedSplitter_def)
    have "sublist c' t" using c'(1) sliceSplitter_substrings by (simp add: splitsIntoSubstrings_def)
    then show ?thesis using c'(2) js_trim_sublist sublist_order.order_trans by blast
  qed
  then show ?thesis by (simp add: splitsIntoSubstrings_def)
qed

lemma js_trim_white: "\<forall>x \<in> set s. isWhiteSpace x \<Longrightarrow> js_trim s = []"
proof -
  assume "\<forall>x \<in> set s. isWhiteSpace x"
  then have d: "dropWhile isWhiteSpace s = []" by (simp add: dropWhile_eq_Nil_conv)
  show ?thesis unfolding js_trim_def d by simp
qed

lemma trimmedSplitter_white: "trimmedSplitter n (replicate k CHR '' '') = []"
proof -
  have "js_trim c = []" if "c \<in> set (sliceSplitter n (replicate k CHR '' ''))" for c
  proof -
    have "sublist c (replicate k CHR '' '')"
      using that sliceSplitter_substrings by (simp add: splitsIntoSubstrings_def)
    then have "set c \<subseteq> set (replicate k CHR '' '')" by (rule set_mono_sublist)
    then have "\<forall>x \<in> set c. isWhiteSpace x" by (auto simp: isWhiteSpace_def)
    then show ?thesis by (rule js_trim_white)
  qed
  then show ?thesis by (simp add: trimmedSplitter_def filter_empty_conv)
qed

text \<open>
  Claim C5 as the specification words it, never empty output for non-empty input, fails
  where the splitter has no chunk to offer. The splitter below cuts the text into slices,
  strips them and drops the empty ones; its chunks are substrings of the text. For 200
  blanks of one token each and a budget of 190 tokens the target length is 170, the
  splitter returns no chunk, line 77 supplies the empty string, and \<open>trimPrompt\<close> returns it.
\<close>

theorem trimPrompt_empty_output_counterexample:
  "splitsIntoSubstrings trimmedSplitter
   \<and> replicate 200 CHR '' '' \<noteq> []
   \<and> chunkSizeOf length (replicate 200 CHR '' '') 190 = 170
   \<and> trimmedSplitter 170 (replicate 200 CHR '' '') = []
   \<and> trimPrompt length trimmedSplitter (replicate 200 CHR '' '') 190 = Some []"
proof -
  have step: "trimStep length trimmedSplitter (replicate 200 CHR '' '') 190 = Recurse []"
    by (simp add: trimStep_def chunkSizeOf_def MinChunkSize_def firstChunk_def trimmedSplitter_white)
  have "trimPrompt length trimmedSplitter [] 190 = Some []"
    by (rule trimPrompt_Return) (simp add: trimStep_def)
  then have "trimPrompt length trimmedSplitter (replicate 200 CHR '' '') 190 = Some []"
    using trimPrompt_Recurse [OF step] by simp
  then show ?thesis
    using trimmedSplitter_substrings trimmedSplitter_white [of 170 200]
    by (simp add: chunkSizeOf_def)
qed

theorem trimPrompt_idempotent_witness:
  "trimPrompt length sliceSplitter (replicate 200 CHR ''a'') 100 = Some (replicate 140 CHR ''a'')
   \<and> trimPrompt length sliceSplitter (replicate 140 CHR ''a'') 100 = Some (replicate 140 CHR ''a'')
   \<and> splitsIntoSubstrings sliceSplitter
   \<and> int (length ''abc'') \<le> 5
   \<and> trimPrompt length sliceSplitter ''abc'' 5 = Some ''abc''"
  using trimPrompt_idempotent [of length sliceSplitter "replicate 200 CHR ''a''" 100]
    trimPrompt_idempotent [of length sliceSplitter "''abc''" 5]
    trimPrompt_floor_example sliceSplitter_substrings
  by simp

theorem trimPrompt_terminates_witness:
  "splitsIntoSubstrings sliceSplitter
   \<and> trimStep length sliceSplitter (replicate 200 CHR ''a'') 190 = Recurse (replicate 170 CHR ''a'')
   \<and> length (replicate 170 CHR ''a'') < length (replicate 200 CHR ''a'')
   \<and> (\<exists>r. trimPrompt length sliceSplitter (replicate 200 CHR ''a'') 190 = Some r)"
  using trimPrompt_terminates [OF sliceSplitter_substrings, of length "replicate 200 CHR ''a''" 190]
    sliceSplitter_substrings trimStep_example
  by simp

section \<open>Properties of the orchestrator\<close>

declare deepResearch.simps [simp del] branchTask.simps [simp del]

lemma halfCeil_div: "halfCeil b = (b + 1) div 2"
  unfolding halfCeil_def by linarith

lemma halfCeil_positive: "1 \<le> b \<Longrightarrow> 1 \<le> halfCeil b"
  by (simp add: halfCeil_div)

lemma uniqueValues_fold:
  "distinct seen \<Longrightarrow>
   distinct (fold (\<lambda>x seen. if x \<in> set seen then seen else seen @ [x]) xs seen)
   \<and> set (fold (\<lambda>x seen. if x \<in> set seen then seen else seen @ [x]) xs seen) = set seen \<union> set xs"
  by (induction xs arbitrary: seen) auto

lemma distinct_uniqueValues: "distinct (uniqueValues xs)"
  using uniqueValues_fold [of "[]" xs] by (simp add: uniqueValues_def)

lemma set_uniqueValues: "set (uniqueValues xs) = set xs"
  using uniqueValues_fold [of "[]" xs] by (simp add: uniqueValues_def)

lemma mergeResults_distinct:
  "distinct (learnings (mergeResults rs)) \<and> distinct (visitedUrls (mergeResults rs))"
  by (simp add: mergeResults_def distinct_uniqueValues)

lemma mergeResults_sets:
  "set (learnings (mergeResults rs)) = (\<Union>t \<in> set rs. set (learnings t))
   \<and> set (visitedUrls (mergeResults rs)) = (\<Union>t \<in> set rs. set (visitedUrls t))"
  by (simp add: mergeResults_def set_uniqueValues)

text \<open>
  Claim C1. In a call with \<open>breadth \<ge> 1\<close> and \<open>depth \<ge> 0\<close>, a task whose search and
  extraction succeed computes the child breadth \<open>ceil(breadth / 2)\<close>, which is at least 1,
  and the child depth \<open>depth - 1\<close>. When the child depth is positive the task's result is
  that of the recursive call with the next-level query, the child breadth and depth, and
  the prior learnings and URLs extended by the branch's own; otherwise the task returns
  exactly these extended learnings and URLs. The extended lists hold the union of the
  prior and the branch's entries.
\<close>

theorem branchTask_child_call:
  assumes "1 \<le> breadth" and "0 \<le> depth"
    and "firecrawlSearch env (query serpQuery) = Inr result"
    and "processSerpResult env (query serpQuery) result 3 (halfCeil breadth) = Inr found"
  shows "halfCeil breadth = (breadth + 1) div 2 \<and> 1 \<le> halfCeil breadth
       \<and> (0 < depth - 1 \<longrightarrow>
            branchTask env breadth depth priorLearnings priorUrls serpQuery
              = deepResearch env (nextQuery serpQuery found) (halfCeil breadth) (depth - 1)
                  (priorLearnings @ foundLearnings found) (priorUrls @ compact (map url result)))
       \<and> (depth - 1 \<le> 0 \<longrightarrow>
            branchTask env breadth depth priorLearnings priorUrls serpQuery
              = Inr \<lparr>learnings = priorLearnings @ foundLearnings found,
                     visitedUrls = priorUrls @ compact (map url result)\<rparr>)
       \<and> set (priorLearnings @ foundLearnings found) = set priorLearnings \<union> set (foundLearnings found)
       \<and> set (priorUrls @ compact (map url result)) = set priorUrls \<union> set (compact (map url result))"
  using assms by (simp add: branchTask.simps halfCeil_div Let_def)

text \<open>
  Claim C3. Whenever \<open>deepResearch\<close> returns a result, its \<open>learnings\<close> and its
  \<open>visitedUrls\<close> hold no entry twice; and when the tasks of the call have the results
  \<open>results\<close>, the call returns the merge whose learnings and URLs are, as sets, the unions
  of the tasks' learnings and URLs.
\<close>

theorem deepResearch_no_duplicates:
  "(\<forall>r. deepResearch env userQuery breadth depth priorLearnings priorUrls = Inr r \<longrightarrow>
         distinct (learnings r) \<and> distinct (visitedUrls r))
   \<and> (\<forall>serpQueries results.
         generateSerpQueries env userQuery breadth priorLearnings = Inr serpQueries
         \<and> promiseAll (map (branchTask env breadth depth priorLearnings priorUrls) serpQueries) = Inr results
         \<longrightarrow> (\<exists>r. deepResearch env userQuery breadth depth priorLearnings priorUrls = Inr r
                \<and> set (learnings r) = (\<Union>t \<in> set results. set (learnings t))
                \<and> set (visitedUrls r) = (\<Union>t \<in> set results. set (visitedUrls t))))"
proof -
  have A: "distinct (learnings r) \<and> distinct (visitedUrls r)"
    if h: "deepResearch env userQuery breadth depth priorLearnings priorUrls = Inr r" for r
  proof -
    obtain rs where "r = mergeResults rs"
      using h by (auto simp: deepResearch.simps split: sum.splits)
    then show ?thesis using mergeResults_distinct by simp
  qed
  have B: "\<exists>r. deepResearch env userQuery breadth depth priorLearnings priorUrls = Inr r
                \<and> set (learnings r) = (\<Union>t \<in> set results. set (learnings t))
                \<and> set (visitedUrls r) = (\<Union>t \<in> set results. set (visitedUrls t))"
    if "generateSerpQueries env userQuery breadth priorLearnings = Inr serpQueries
         \<and> promiseAll (map (branchTask env breadth depth priorLearnings priorUrls) serpQueries) = Inr results"
    for serpQueries results
  proof -
    have "deepResearch env userQuery breadth depth priorLearnings priorUrls = Inr (mergeResults results)"
      using that by (simp add: deepResearch.simps)
    then show ?thesis using mergeResults_sets by blast
  qed
  show ?thesis using A B by blast
qed


text \<open>Failures that the task's \<open>catch\<close> clause does handle.\<close>

lemma branchTask_search_failure:
  "firecrawlSearch env (query serpQuery) = Inl e \<Longrightarrow>
   branchTask env breadth depth priorLearnings priorUrls serpQuery
     = Inr \<lparr>learnings = [], visitedUrls = []\<rparr>"
  by (simp add: branchTask.simps)

lemma branchTask_extraction_failure:
  "firecrawlSearch env (query serpQuery) = Inr result \<Longrightarrow>
   processSerpResult env (query serpQuery) result 3 (halfCeil breadth) = Inl e \<Longrightarrow>
   branchTask env breadth depth priorLearnings priorUrls serpQuery
     = Inr \<lparr>learnings = [], visitedUrls = []\<rparr>"
  by (simp add: branchTask.simps Let_def)

subsection \<open>The limiters\<close>




subsection \<open>Runs with the steady collaborators\<close>

lemma trim_short: "trimPrompt length sliceSplitter ''m'' 25000 = Some ''m''"
  by (subst trimPrompt.simps) (simp add: trimStep_def)

lemma steady_task:
  "branchTask steadyWeb 2 1 [] [] \<lparr>query = q, researchGoal = g\<rparr>
     = Inr \<lparr>learnings = [''l''], visitedUrls = [''u'', ''u'']\<rparr>"
  by (simp add: branchTask.simps steadyWeb_def processSerpResult_def halfCeil_div Let_def trim_short)

lemma steady_run:
  "deepResearch steadyWeb ''X'' 2 1 [] [] = Inr \<lparr>learnings = [''l''], visitedUrls = [''u'']\<rparr>"
proof -
  have g: "generateSerpQueries steadyWeb ''X'' 2 [] =
      Inr [\<lparr>query = ''q1'', researchGoal = ''g1''\<rparr>, \<lparr>query = ''q2'', researchGoal = ''g2''\<rparr>]"
    by (simp add: generateSerpQueries_def steadyWeb_def sliceTo_def)
  show ?thesis
    by (subst deepResearch.simps) (simp add: g steady_task mergeResults_def uniqueValues_def)
qed



lemma steady_search:
  "firecrawlSearch steadyWeb q = Inr [\<lparr>url = Some ''u'', markdown = Some ''m''\<rparr>,
                                    \<lparr>url = Some ''u'', markdown = None\<rparr>]"
  by (simp add: steadyWeb_def)

lemma steady_findings:
  "processSerpResult steadyWeb q [\<lparr>url = Some ''u'', markdown = Some ''m''\<rparr>,
                                    \<lparr>url = Some ''u'', markdown = None\<rparr>] 3 n
     = Inr \<lparr>foundLearnings = [''l''], followUpQuestions = [''f'']\<rparr>"
  by (simp add: processSerpResult_def steadyWeb_def trim_short)




theorem branchTask_child_call_witness:
  "(1::int) \<le> 2 \<and> (0::int) \<le> 2
   \<and> firecrawlSearch steadyWeb (query \<lparr>query = ''q1'', researchGoal = ''g1''\<rparr>)
        = Inr [\<lparr>url = Some ''u'', markdown = Some ''m''\<rparr>, \<lparr>url = Some ''u'', markdown = None\<rparr>]
   \<and> processSerpResult steadyWeb (query \<lparr>query = ''q1'', researchGoal = ''g1''\<rparr>)
          [\<lparr>url = Some ''u'', markdown = Some ''m''\<rparr>, \<lparr>url = Some ''u'', markdown = None\<rparr>] 3 (halfCeil 2)
        = Inr \<lparr>foundLearnings = [''l''], followUpQuestions = [''f'']\<rparr>
   \<and> halfCeil 2 = 1
   \<and> branchTask steadyWeb 2 2 [''p''] [] \<lparr>query = ''q1'', researchGoal = ''g1''\<rparr>
        = deepResearch steadyWeb
            (nextQuery \<lparr>query = ''q1'', researchGoal = ''g1''\<rparr>
               \<lparr>foundLearnings = [''l''], followUpQuestions = [''f'']\<rparr>)
            1 1 [''p'', ''l''] [''u'', ''u'']
   \<and> branchTask steadyWeb 2 1 [''p''] [] \<lparr>query = ''q1'', researchGoal = ''g1''\<rparr>
        = Inr \<lparr>learnings = [''p'', ''l''], visitedUrls = [''u'', ''u'']\<rparr>"
proof -
  let ?sq = "\<lparr>query = ''q1'', researchGoal = ''g1''\<rparr>"
  let ?result = "[\<lparr>url = Some ''u'', markdown = Some ''m''\<rparr>, \<lparr>url = Some ''u'', markdown = None\<rparr>]"
  let ?found = "\<lparr>foundLearnings = [''l''], followUpQuestions = [''f'']\<rparr>"
  have b: "(1::int) \<le> 2" by simp
  have d2: "(0::int) \<le> 2" and d1: "(0::int) \<le> 1" by simp_all
  have s: "firecrawlSearch steadyWeb (query ?sq) = Inr ?result" by (rule steady_search)
  have f: "processSerpResult steadyWeb (query ?sq) ?result 3 (halfCeil 2) = Inr ?found"
    by (rule steady_findings)
  show ?thesis
    using branchTask_child_call [OF b d2 s f, of "[''p'']" "[]"]
      branchTask_child_call [OF b d1 s f, of "[''p'']" "[]"] s f
    by simp
qed

theorem deepResearch_no_duplicates_witness:
  "deepResearch steadyWeb ''X'' 2 1 [] [] = Inr \<lparr>learnings = [''l''], visitedUrls = [''u'']\<rparr>
   \<and> promiseAll (map (branchTask steadyWeb 2 1 [] [])
         [\<lparr>query = ''q1'', researchGoal = ''g1''\<rparr>, \<lparr>query = ''q2'', researchGoal = ''g2''\<rparr>])
        = Inr [\<lparr>learnings = [''l''], visitedUrls = [''u'', ''u'']\<rparr>,
               \<lparr>learnings = [''l''], visitedUrls = [''u'', ''u'']\<rparr>]
   \<and> distinct (learnings \<lparr>learnings = [''l''], visitedUrls = [''u'']\<rparr>)
   \<and> distinct (visitedUrls \<lparr>learnings = [''l''], visitedUrls = [''u'']\<rparr>)"
  using deepResearch_no_duplicates [of steadyWeb "''X''" 2 1 "[]" "[]"] steady_run steady_task
  by simp

subsection \<open>A rejection below the root\<close>

lemma flaky_findings:
  "processSerpResult flakyWeb q [\<lparr>url = Some u, markdown = Some ''m''\<rparr>] 3 n
     = Inr \<lparr>foundLearnings = [CHR ''l'' # q], followUpQuestions = []\<rparr>"
  by (simp add: processSerpResult_def flakyWeb_def trim_short)

lemma flaky_search:
  "firecrawlSearch flakyWeb q = Inr [\<lparr>url = Some (''http://'' @ q), markdown = Some ''m''\<rparr>]"
  by (simp add: flakyWeb_def)

lemma flaky_queries:
  "generateSerpQueries flakyWeb q 2 [] =
     Inr [\<lparr>query = ''a'', researchGoal = ''ga''\<rparr>, \<lparr>query = ''b'', researchGoal = ''gb''\<rparr>]"
  "generateSerpQueries flakyWeb q 1 [''la''] = Inl (JsError (Some ''No object generated''))"
  "generateSerpQueries flakyWeb q 1 [''lb''] = Inr [\<lparr>query = ''c'', researchGoal = ''gc''\<rparr>]"
  by (simp_all add: generateSerpQueries_def flakyWeb_def sliceTo_def)

lemma flaky_branch_a:
  "branchTask flakyWeb 2 2 [] [] \<lparr>query = ''a'', researchGoal = ''ga''\<rparr>
     = Inl (JsError (Some ''No object generated''))"
  by (simp add: branchTask.simps deepResearch.simps flaky_search flaky_findings flaky_queries
        halfCeil_div Let_def)

lemma flaky_branch_b:
  "branchTask flakyWeb 2 2 [] [] \<lparr>query = ''b'', researchGoal = ''gb''\<rparr>
     = Inr \<lparr>learnings = [''lb'', ''lc''], visitedUrls = [''http://b'', ''http://c'']\<rparr>"
  by (simp add: branchTask.simps deepResearch.simps flaky_search flaky_findings flaky_queries
        halfCeil_div Let_def mergeResults_def uniqueValues_def)

text \<open>
  Claim C2 has every failure of a task's search, trimming, extraction and recursion caught
  at the task boundary. Search and extraction failures are (\<open>branchTask_search_failure\<close>,
  \<open>branchTask_extraction_failure\<close>). A rejection of the recursive call is not: with
  \<open>flakyWeb\<close>, breadth 2 and depth 2, query generation fails in the child call of branch
  \<open>a\<close>; the task of branch \<open>a\<close> rejects instead of resolving to the empty result, and the
  root call rejects although branch \<open>b\<close> has learnings and URLs to contribute.
\<close>

theorem deepResearch_child_rejection_escapes:
  "generateSerpQueries flakyWeb ''X'' 2 [] =
     Inr [\<lparr>query = ''a'', researchGoal = ''ga''\<rparr>, \<lparr>query = ''b'', researchGoal = ''gb''\<rparr>]
   \<and> branchTask flakyWeb 2 2 [] [] \<lparr>query = ''a'', researchGoal = ''ga''\<rparr>
        = Inl (JsError (Some ''No object generated''))
   \<and> branchTask flakyWeb 2 2 [] [] \<lparr>query = ''b'', researchGoal = ''gb''\<rparr>
        = Inr \<lparr>learnings = [''lb'', ''lc''], visitedUrls = [''http://b'', ''http://c'']\<rparr>
   \<and> deepResearch flakyWeb ''X'' 2 2 [] [] = Inl (JsError (Some ''No object generated''))"
proof -
  have "deepResearch flakyWeb ''X'' 2 2 [] [] = Inl (JsError (Some ''No object generated''))"
    by (subst deepResearch.simps) (simp add: flaky_queries flaky_branch_a)
  then show ?thesis using flaky_queries(1) flaky_branch_a flaky_branch_b by simp
qed

end
